theory Spec2Isabelle
  imports Main "HOL-Library.Word" "HOL-Library.AList" "HOL-Library.Multiset"
begin

unbundle bit_operations_syntax

section \<open>Strings\<close>

text \<open>
  Go strings are byte sequences; they are modelled as \<open>string\<close> (a list of bytes).
  \<open>strings.ToLower\<close> is modelled on ASCII: the letters A to Z are mapped to a to z,
  every other byte is kept.
\<close>

definition toLowerChar :: "char \<Rightarrow> char" where
  "toLowerChar c =
     (let n = (of_char c :: nat) in if 65 \<le> n \<and> n \<le> 90 then char_of (n + 32) else c)"

definition ToLower :: "string \<Rightarrow> string" where
  "ToLower s = map toLowerChar s"

text \<open>
  \<open>strings.HasSuffix(s, suffix)\<close> is
  \<open>len(s) >= len(suffix) && s[len(s)-len(suffix):] == suffix\<close>.
\<close>

definition HasSuffix :: "string \<Rightarrow> string \<Rightarrow> bool" where
  "HasSuffix s sfx = (length sfx \<le> length s \<and> drop (length s - length sfx) s = sfx)"

text \<open>
  \<open>strings.Split(s, sep)\<close> for a one-byte separator: the pieces of \<open>s\<close> between the
  occurrences of \<open>sep\<close>. A string without the separator (the empty string too) gives the
  one-element slice holding the string itself.
\<close>

fun Split :: "string \<Rightarrow> char \<Rightarrow> string list" where
  "Split [] sep = [[]]"
| "Split (c # cs) sep =
     (if c = sep then [] # Split cs sep
      else (case Split cs sep of [] \<Rightarrow> [[c]] | piece # pieces \<Rightarrow> (c # piece) # pieces))"

section \<open>Errors, file modes and the directory tree\<close>

text \<open>
  Go's \<open>error\<close> values: \<open>nil\<close> is \<open>None\<close>. The two sentinels of \<open>path/filepath\<close>
  are told apart from every error of the operating system; \<open>NilDeref\<close> stands for
  the run-time panic of a method call on a nil \<open>os.FileInfo\<close>.
\<close>

datatype err = SkipDir | SkipAll | OSError string | NilDeref

text \<open>
  \<open>os.FileMode\<close> is a \<open>uint32\<close>; the type bits are the constants of \<open>io/fs\<close>
  (\<open>ModeDir = 1 << 31\<close>, then one bit lower per constant).
\<close>

type_synonym FileMode = "32 word"

definition ModeDir :: FileMode where "ModeDir = push_bit 31 1"
definition ModeSymlink :: FileMode where "ModeSymlink = push_bit 27 1"
definition ModeDevice :: FileMode where "ModeDevice = push_bit 26 1"
definition ModeNamedPipe :: FileMode where "ModeNamedPipe = push_bit 25 1"
definition ModeSocket :: FileMode where "ModeSocket = push_bit 24 1"
definition ModeCharDevice :: FileMode where "ModeCharDevice = push_bit 21 1"
definition ModeIrregular :: FileMode where "ModeIrregular = push_bit 19 1"

definition ModeType :: FileMode where
  "ModeType = ModeDir OR ModeSymlink OR ModeNamedPipe OR ModeSocket OR ModeDevice
                OR ModeCharDevice OR ModeIrregular"

text \<open>The part of \<open>os.FileInfo\<close> the program reads: \<open>Mode()\<close>, \<open>Size()\<close>, \<open>IsDir()\<close>.\<close>

record FileInfo =
  Mode :: FileMode
  Size :: "64 word"

definition IsDir :: "FileInfo \<Rightarrow> bool" where
  "IsDir info = (Mode info AND ModeDir \<noteq> 0)"

text \<open>
  What \<open>os.Lstat\<close> and \<open>readDirNames\<close> report below a root, as a tree: \<open>Lstat\<close> of
  a path fails, or gives a \<open>FileInfo\<close>; reading a directory fails, or gives the names of
  its entries in the order \<open>readDirNames\<close> returns them (sorted), each with its own
  subtree. The \<open>dirread\<close> of an entry that is not a directory is never read.
\<close>

datatype fsnode = LstatFails string | Node FileInfo dirread
  and dirread = ReadDirFails string | Names "(string \<times> fsnode) list"

section \<open>filepath.Walk\<close>

text \<open>
  The walk function of the standard library (\<open>path/filepath\<close>, as of Go 1.20), over the
  tree above. \<open>WalkFunc\<close> is \<open>func(path string, info os.FileInfo, err error) error\<close>;
  the state the closure mutates is passed through. \<open>join\<close> is \<open>filepath.Join\<close>.

  \<^verbatim>\<open>
  func walk(path string, info fs.FileInfo, walkFn WalkFunc) error {
      if !info.IsDir() { return walkFn(path, info, nil) }
      names, err := readDirNames(path)
      err1 := walkFn(path, info, err)
      if err != nil || err1 != nil { return err1 }
      for _, name := range names {
          filename := Join(path, name)
          fileInfo, err := lstat(filename)
          if err != nil {
              if err := walkFn(filename, fileInfo, err); err != nil && err != SkipDir {
                  return err
              }
          } else {
              err = walk(filename, fileInfo, walkFn)
              if err != nil {
                  if !fileInfo.IsDir() || err != SkipDir { return err }
              }
          }
      }
      return nil
  }
  func Walk(root string, fn WalkFunc) error {
      info, err := os.Lstat(root)
      if err != nil { err = fn(root, nil, err) } else { err = walk(root, info, fn) }
      if err == SkipDir || err == SkipAll { return nil }
      return err
  }
  \<close>
\<close>

type_synonym 'st WalkFunc = "string \<Rightarrow> FileInfo option \<Rightarrow> err option \<Rightarrow> 'st \<Rightarrow> err option \<times> 'st"

fun walk :: "(string \<Rightarrow> string \<Rightarrow> string) \<Rightarrow> string \<Rightarrow> FileInfo \<Rightarrow> dirread \<Rightarrow> 'st WalkFunc
               \<Rightarrow> 'st \<Rightarrow> err option \<times> 'st"
  and walkNames :: "(string \<Rightarrow> string \<Rightarrow> string) \<Rightarrow> string \<Rightarrow> (string \<times> fsnode) list
               \<Rightarrow> 'st WalkFunc \<Rightarrow> 'st \<Rightarrow> err option \<times> 'st"
  where
  "walk join path info rd walkFn st =
     (if \<not> IsDir info then walkFn path (Some info) None st
      else (case rd of
              ReadDirFails e \<Rightarrow> walkFn path (Some info) (Some (OSError e)) st
            | Names names \<Rightarrow>
                (case walkFn path (Some info) None st of
                   (Some err1, st1) \<Rightarrow> (Some err1, st1)
                 | (None, st1) \<Rightarrow> walkNames join path names walkFn st1)))"
| "walkNames join path [] walkFn st = (None, st)"
| "walkNames join path ((name, LstatFails e) # rest) walkFn st =
     (case walkFn (join path name) None (Some (OSError e)) st of
        (Some er, st1) \<Rightarrow>
          if er \<noteq> SkipDir then (Some er, st1) else walkNames join path rest walkFn st1
      | (None, st1) \<Rightarrow> walkNames join path rest walkFn st1)"
| "walkNames join path ((name, Node fileInfo rd) # rest) walkFn st =
     (case walk join (join path name) fileInfo rd walkFn st of
        (Some er, st1) \<Rightarrow>
          if \<not> IsDir fileInfo \<or> er \<noteq> SkipDir then (Some er, st1)
          else walkNames join path rest walkFn st1
      | (None, st1) \<Rightarrow> walkNames join path rest walkFn st1)"

definition Walk :: "(string \<Rightarrow> string \<Rightarrow> string) \<Rightarrow> string \<Rightarrow> fsnode \<Rightarrow> 'st WalkFunc
                      \<Rightarrow> 'st \<Rightarrow> err option \<times> 'st" where
  "Walk join root tree fn st =
     (case (case tree of
              LstatFails e \<Rightarrow> fn root None (Some (OSError e)) st
            | Node info rd \<Rightarrow> walk join root info rd fn st) of
        (er, st1) \<Rightarrow> if er = Some SkipDir \<or> er = Some SkipAll then (None, st1) else (er, st1))"

section \<open>scanSizes\<close>

text \<open>
  A Go map is an association list with distinct keys; \<open>m[k]\<close> is \<open>map_of m k\<close> and an
  assignment \<open>m[k] = v\<close> is \<open>AList.update k v m\<close>. Sizes are Go's \<open>int\<close> on a 64-bit
  platform, where \<open>int(info.Size())\<close> changes nothing.
\<close>

type_synonym sizemap = "(64 word \<times> string list) list"

text \<open>\<open>names[size]\<close> read as a value: the nil slice when the key is absent.\<close>

definition slot :: "sizemap \<Rightarrow> 64 word \<Rightarrow> string list" where
  "slot names sz = (case map_of names sz of None \<Rightarrow> [] | Some ps \<Rightarrow> ps)"

text \<open>
  The closure passed to \<open>filepath.Walk\<close> (lines 88 to 118); its state is the map
  \<open>names\<close>. The loop over the suffixes that sets \<open>keep\<close> and breaks is \<open>list_ex\<close>.
\<close>

definition visit :: "string list \<Rightarrow> sizemap WalkFunc" where
  "visit suffixes path info inerr names =
     (case inerr of
        Some e \<Rightarrow> (Some SkipDir, names)
      | None \<Rightarrow>
          (case info of
             None \<Rightarrow> (Some NilDeref, names)
           | Some i \<Rightarrow>
               if Mode i AND ModeType \<noteq> 0 then (None, names)
               else if length suffixes > 0
                       \<and> \<not> list_ex (\<lambda>ext. HasSuffix (ToLower path) (''.'' @ ext)) suffixes
                    then (None, names)
               else (None, AList.update (Size i) (slot names (Size i) @ [path]) names)))"

definition scanSizes :: "(string \<Rightarrow> string \<Rightarrow> string) \<Rightarrow> string \<Rightarrow> string list \<Rightarrow> fsnode
                           \<Rightarrow> sizemap \<times> err option" where
  "scanSizes join root suffixes tree =
     (case Walk join root tree (visit suffixes) [] of
        (Some e, names) \<Rightarrow> ([], Some e)
      | (None, names) \<Rightarrow> (names, None))"

text \<open>
  \<open>filepath.Join\<close> as far as the examples need it: for a clean root other than \<open>.\<close>
  and the directory root, with no separator at its end, and a plain entry name, it only
  puts the separator between the two. Every general theorem takes \<open>join\<close> as a
  parameter.
\<close>

definition Join :: "string \<Rightarrow> string \<Rightarrow> string" where
  "Join dir name = dir @ ''/'' @ name"

section \<open>Files, scanHashes\<close>

text \<open>
  What \<open>os.Open\<close> followed by reading to the end gives for a path: no such file, a file
  that cannot be opened, a file whose read fails, or the bytes of the file.
\<close>

datatype fobj = Missing | OpenFails string | ReadFails string | Bytes "8 word list"

text \<open>
  The file system the program runs on: the tree \<open>Lstat\<close> and \<open>readDirNames\<close> report
  below each root path, the file behind each path, and the paths on which \<open>os.Remove\<close>
  fails although the file is there (a directory without write permission). A file is
  known by its path string only: two strings that name one file (a relative and an
  absolute path, a hard link) are two files here, and removing one leaves the other.
  Nothing below is a statement about a file under another name.
\<close>

record world =
  lstatTree :: "string \<Rightarrow> fsnode"
  fileAt :: "string \<Rightarrow> fobj"
  removeFails :: "string \<Rightarrow> bool"

definition os_Open :: "world \<Rightarrow> string \<Rightarrow> err + fobj" where
  "os_Open w path =
     (case fileAt w path of
        Missing \<Rightarrow> Inl (OSError ''no such file or directory'')
      | OpenFails e \<Rightarrow> Inl (OSError e)
      | ReadFails e \<Rightarrow> Inr (ReadFails e)
      | Bytes bs \<Rightarrow> Inr (Bytes bs))"

text \<open>\<open>io.Copy(hash, fp)\<close>: the bytes written into the hash, or the read error.\<close>

definition io_Copy :: "fobj \<Rightarrow> err + 8 word list" where
  "io_Copy fp =
     (case fp of
        Bytes bs \<Rightarrow> Inr bs
      | ReadFails e \<Rightarrow> Inl (OSError e)
      | OpenFails e \<Rightarrow> Inl (OSError e)
      | Missing \<Rightarrow> Inl (OSError ''file already closed''))"

text \<open>
  \<open>os.Remove\<close>: fails on a path with no file and on a path of \<open>removeFails\<close>;
  otherwise the file is gone afterwards.
\<close>

definition os_Remove :: "world \<Rightarrow> string \<Rightarrow> err + world" where
  "os_Remove w path =
     (if fileAt w path = Missing \<or> removeFails w path then Inl (OSError ''remove'')
      else Inr (w\<lparr>fileAt := (fileAt w)(path := Missing)\<rparr>))"

type_synonym hashmap = "(string \<times> string) list"

text \<open>
  The loop of \<open>scanHashes\<close> (lines 128 to 144) over the map \<open>files\<close>. \<open>sha\<close> is
  \<open>hex.EncodeToString\<close> of the SHA-256 digest of the bytes read.
\<close>

fun hashLoop :: "(8 word list \<Rightarrow> string) \<Rightarrow> world \<Rightarrow> string list \<Rightarrow> hashmap \<Rightarrow> hashmap" where
  "hashLoop sha w [] files = files"
| "hashLoop sha w (path # paths) files =
     (case os_Open w path of
        Inl e \<Rightarrow> hashLoop sha w paths files
      | Inr fp \<Rightarrow>
          (case io_Copy fp of
             Inl e \<Rightarrow> hashLoop sha w paths files
           | Inr content \<Rightarrow> hashLoop sha w paths (AList.update (sha content) path files)))"

definition scanHashes :: "(8 word list \<Rightarrow> string) \<Rightarrow> world \<Rightarrow> string list
                            \<Rightarrow> hashmap \<times> err option" where
  "scanHashes sha w paths = (hashLoop sha w paths [], None)"

section \<open>main\<close>

record Flags =
  keep :: string
  clean :: string
  dry :: bool
  extensions :: string

text \<open>
  The ways the process ends before the summary line: the four \<open>os.Exit(1)\<close> after the
  scans, the one after the usage message, and \<open>log.Fatalf\<close> after a failed removal.
\<close>

datatype exit = ExitUsage | ExitKeepSizes | ExitCleanSizes | ExitKeepHashes | ExitCleanHashes
  | FatalRemove string

text \<open>
  The state of the matching loops: the two counters, the file system, and a trace of
  what the run did: the pairs (keep path, clean path) reported by the dry run's log
  line, and the pairs whose clean path \<open>os.Remove\<close> removed.
\<close>

record tally =
  filecount :: "64 word"
  bytecount :: "64 word"
  found :: "(string \<times> string) list"
  deleted :: "(string \<times> string) list"
  fs :: world

text \<open>
  The inner loop (lines 65 to 79) over the entries of \<open>keepers\<close>, in the order the
  \<open>range\<close> statement yields them.
\<close>

fun dupsLoop :: "bool \<Rightarrow> 64 word \<Rightarrow> hashmap \<Rightarrow> (string \<times> string) list \<Rightarrow> tally
                   \<Rightarrow> exit option \<times> tally" where
  "dupsLoop isdry sz cleaners [] t = (None, t)"
| "dupsLoop isdry sz cleaners ((key, keeppath) # rest) t =
     (case map_of cleaners key of
        None \<Rightarrow> dupsLoop isdry sz cleaners rest t
      | Some cleanpath \<Rightarrow>
          if isdry then
            dupsLoop isdry sz cleaners rest
              (t\<lparr>filecount := filecount t + 1, bytecount := bytecount t + sz,
                 found := found t @ [(keeppath, cleanpath)]\<rparr>)
          else
            (case os_Remove (fs t) cleanpath of
               Inl e \<Rightarrow>
                 (Some (FatalRemove cleanpath),
                  t\<lparr>filecount := filecount t + 1, bytecount := bytecount t + sz\<rparr>)
             | Inr w' \<Rightarrow>
                 dupsLoop isdry sz cleaners rest
                   (t\<lparr>filecount := filecount t + 1, bytecount := bytecount t + sz,
                      deleted := deleted t @ [(keeppath, cleanpath)], fs := w'\<rparr>)))"

text \<open>
  The outer loop (lines 52 to 81) over the entries of \<open>keeperSizes\<close>. \<open>rangeHashes\<close>
  is the order in which \<open>range\<close> yields the entries of a hash map.
\<close>

fun sizesLoop :: "bool \<Rightarrow> (hashmap \<Rightarrow> hashmap) \<Rightarrow> (8 word list \<Rightarrow> string) \<Rightarrow> sizemap
                    \<Rightarrow> sizemap \<Rightarrow> tally \<Rightarrow> exit option \<times> tally" where
  "sizesLoop isdry rangeHashes sha cleanerSizes [] t = (None, t)"
| "sizesLoop isdry rangeHashes sha cleanerSizes ((sz, keeperNames) # rest) t =
     (case map_of cleanerSizes sz of
        None \<Rightarrow> sizesLoop isdry rangeHashes sha cleanerSizes rest t
      | Some cleanerNames \<Rightarrow>
          (case scanHashes sha (fs t) keeperNames of
             (keepers, Some e) \<Rightarrow> (Some ExitKeepHashes, t)
           | (keepers, None) \<Rightarrow>
               (case scanHashes sha (fs t) cleanerNames of
                  (cleaners, Some e) \<Rightarrow> (Some ExitCleanHashes, t)
                | (cleaners, None) \<Rightarrow>
                    (case dupsLoop isdry sz cleaners (rangeHashes keepers) t of
                       (Some ex, t') \<Rightarrow> (Some ex, t')
                     | (None, t') \<Rightarrow> sizesLoop isdry rangeHashes sha cleanerSizes rest t'))))"

text \<open>
  \<open>main\<close>, from the parsed flags. Go leaves the order of a \<open>range\<close> over a map open:
  \<open>rangeSizes\<close> and \<open>rangeHashes\<close> give the order of the entries for the two kinds of
  map, and the theorems below hold for every order. The result is how the process ended
  (\<open>None\<close>: the summary line was logged and \<open>main\<close> returned) and the final tally, whose
  counters the summary line prints.
\<close>

definition main :: "(sizemap \<Rightarrow> sizemap) \<Rightarrow> (hashmap \<Rightarrow> hashmap) \<Rightarrow> (string \<Rightarrow> string \<Rightarrow> string)
                      \<Rightarrow> (8 word list \<Rightarrow> string) \<Rightarrow> Flags \<Rightarrow> world \<Rightarrow> exit option \<times> tally" where
  "main rangeSizes rangeHashes join sha flags w =
     (if keep flags = [] \<or> clean flags = [] then
        (Some ExitUsage, \<lparr>filecount = 0, bytecount = 0, found = [], deleted = [], fs = w\<rparr>)
      else
        (case scanSizes join (keep flags) (Split (ToLower (extensions flags)) CHR '','')
                (lstatTree w (keep flags)) of
           (keeperSizes, Some e) \<Rightarrow>
             (Some ExitKeepSizes, \<lparr>filecount = 0, bytecount = 0, found = [], deleted = [], fs = w\<rparr>)
         | (keeperSizes, None) \<Rightarrow>
             (case scanSizes join (clean flags) (Split (ToLower (extensions flags)) CHR '','')
                     (lstatTree w (clean flags)) of
                (cleanerSizes, Some e) \<Rightarrow>
                  (Some ExitCleanSizes,
                   \<lparr>filecount = 0, bytecount = 0, found = [], deleted = [], fs = w\<rparr>)
              | (cleanerSizes, None) \<Rightarrow>
                  sizesLoop (dry flags) rangeHashes sha cleanerSizes (rangeSizes keeperSizes)
                    \<lparr>filecount = 0, bytecount = 0, found = [], deleted = [], fs = w\<rparr>)))"

text \<open>The two size maps \<open>main\<close> computes, \<open>keeperSizes\<close> and \<open>cleanerSizes\<close>.\<close>

definition keeperSizesOf :: "(string \<Rightarrow> string \<Rightarrow> string) \<Rightarrow> Flags \<Rightarrow> world \<Rightarrow> sizemap" where
  "keeperSizesOf join flags w =
     fst (scanSizes join (keep flags) (Split (ToLower (extensions flags)) CHR '','')
            (lstatTree w (keep flags)))"

definition cleanerSizesOf :: "(string \<Rightarrow> string \<Rightarrow> string) \<Rightarrow> Flags \<Rightarrow> world \<Rightarrow> sizemap" where
  "cleanerSizesOf join flags w =
     fst (scanSizes join (clean flags) (Split (ToLower (extensions flags)) CHR '','')
            (lstatTree w (clean flags)))"

text \<open>The status the process exits with.\<close>

definition exitStatus :: "exit option \<Rightarrow> nat" where
  "exitStatus ex = (case ex of None \<Rightarrow> 0 | Some e \<Rightarrow> 1)"

section \<open>What the scans are expected to find\<close>

text \<open>
  The entries a walk reaches without crossing a traversal error, in the order of the
  walk: an entry whose \<open>Lstat\<close> fails and a directory that cannot be read contribute
  nothing, every other entry contributes itself and, for a directory, what its entries
  contribute.
\<close>

fun reach :: "(string \<Rightarrow> string \<Rightarrow> string) \<Rightarrow> string \<Rightarrow> fsnode \<Rightarrow> (string \<times> FileInfo) list"
  and reachNames :: "(string \<Rightarrow> string \<Rightarrow> string) \<Rightarrow> string \<Rightarrow> (string \<times> fsnode) list
                       \<Rightarrow> (string \<times> FileInfo) list"
  where
  "reach join path (LstatFails e) = []"
| "reach join path (Node info rd) =
     (if \<not> IsDir info then [(path, info)]
      else (case rd of
              ReadDirFails e \<Rightarrow> []
            | Names names \<Rightarrow> (path, info) # reachNames join path names))"
| "reachNames join path [] = []"
| "reachNames join path ((name, child) # rest) =
     reach join (join path name) child @ reachNames join path rest"

text \<open>An entry the scan wants: a regular file that passes the extension filter.\<close>

definition wanted :: "string list \<Rightarrow> string \<times> FileInfo \<Rightarrow> bool" where
  "wanted suffixes e =
     (Mode (snd e) AND ModeType = 0
      \<and> (suffixes = [] \<or> list_ex (\<lambda>ext. HasSuffix (ToLower (fst e)) (''.'' @ ext)) suffixes))"

text \<open>Appending a path to the bucket of its size.\<close>

definition addName :: "sizemap \<Rightarrow> string \<times> FileInfo \<Rightarrow> sizemap" where
  "addName names e =
     AList.update (Size (snd e)) (slot names (Size (snd e)) @ [fst e]) names"

text \<open>The digest \<open>scanHashes\<close> computes for a path, if the file can be opened and read.\<close>

definition digestOf :: "(8 word list \<Rightarrow> string) \<Rightarrow> world \<Rightarrow> string \<Rightarrow> string option" where
  "digestOf sha w path =
     (case os_Open w path of
        Inl e \<Rightarrow> None
      | Inr fp \<Rightarrow> (case io_Copy fp of Inl e \<Rightarrow> None | Inr content \<Rightarrow> Some (sha content)))"

section \<open>What the matching is expected to find\<close>

text \<open>
  The pairs (keep path, clean path) of one size: for every entry of \<open>keepers\<close> whose
  digest is also a key of \<open>cleaners\<close>, the keep path with the clean path stored there.
\<close>

fun matches :: "hashmap \<Rightarrow> (string \<times> string) list \<Rightarrow> (string \<times> string) list" where
  "matches cleaners [] = []"
| "matches cleaners ((key, keeppath) # rest) =
     (case map_of cleaners key of
        None \<Rightarrow> matches cleaners rest
      | Some cleanpath \<Rightarrow> (keeppath, cleanpath) # matches cleaners rest)"



section \<open>A concrete file system\<close>

text \<open>
  The scenario of the specification: the keep tree holds \<open>A.txt\<close>, the clean tree holds
  \<open>B.txt\<close> with the same ten bytes and \<open>C.txt\<close> with ten other bytes. \<open>byteSum\<close>
  stands in for the SHA-256 digest in the examples: it is injective, and every theorem
  below holds for any digest function.
\<close>

definition regular :: "64 word \<Rightarrow> fsnode" where
  "regular n = Node \<lparr>Mode = 420, Size = n\<rparr> (Names [])"

definition directory :: "(string \<times> fsnode) list \<Rightarrow> fsnode" where
  "directory es = Node \<lparr>Mode = ModeDir OR 493, Size = 4096\<rparr> (Names es)"

definition byteSum :: "8 word list \<Rightarrow> string" where
  "byteSum bs = map (\<lambda>b. char_of (unat b)) bs"

definition scenario :: world where
  "scenario =
     \<lparr>lstatTree = (\<lambda>root.
        if root = ''keep'' then directory [(''A.txt'', regular 10)]
        else if root = ''clean'' then directory [(''B.txt'', regular 10), (''C.txt'', regular 10)]
        else LstatFails ''no such file or directory''),
      fileAt = (\<lambda>p.
        if p = ''keep/A.txt'' \<or> p = ''clean/B.txt'' then Bytes (replicate 10 1)
        else if p = ''clean/C.txt'' then Bytes (replicate 10 2)
        else Missing),
      removeFails = (\<lambda>p. False)\<rparr>"

text \<open>
  Variants of the scenario: the path \<open>keep/A.txt\<close> given as a root (a regular file, not a
  directory); a clean tree in which \<open>B.txt\<close> cannot be removed; and a tree with an entry
  whose \<open>Lstat\<close> fails, a directory that cannot be read, a subdirectory and a symbolic
  link.
\<close>

definition fileAsRoot :: world where
  "fileAsRoot = scenario\<lparr>lstatTree := (lstatTree scenario)(''keep/A.txt'' := regular 10)\<rparr>"


definition brokenTree :: fsnode where
  "brokenTree =
     directory
       [(''a.txt'', regular 1),
        (''gone'', LstatFails ''permission denied''),
        (''locked'', Node \<lparr>Mode = ModeDir OR 448, Size = 4096\<rparr> (ReadDirFails ''permission denied'')),
        (''link.txt'', Node \<lparr>Mode = ModeSymlink OR 511, Size = 5\<rparr> (Names [])),
        (''sub'', directory [(''z.TXT'', regular 2)])]"

section \<open>Properties of the string functions\<close>

lemma Split_empty: "Split (ToLower []) CHR '','' = [[]]"
  by (simp add: ToLower_def)

section \<open>The walk and the closure of scanSizes\<close>

lemma ModeType_zero_ModeDir: "m AND ModeType = 0 \<Longrightarrow> m AND ModeDir = 0"
  by (simp add: ModeType_def bit.conj_disj_distrib or_eq_0_iff)

lemma IsDir_not_wanted: "IsDir info \<Longrightarrow> \<not> wanted sfx (p, info)"
  using ModeType_zero_ModeDir[of "Mode info"] by (auto simp: IsDir_def wanted_def)

lemma visit_error: "visit sfx path info (Some e) names = (Some SkipDir, names)"
  by (simp add: visit_def)

lemma visit_entry:
  "visit sfx path (Some i) None names =
     (None, if wanted sfx (path, i) then addName names (path, i) else names)"
  by (auto simp: visit_def wanted_def addName_def)

lemma walk_visit_aux:
  "walkFn = visit sfx \<Longrightarrow>
     walk join path info rd walkFn names =
       (if IsDir info \<and> (\<exists>e. rd = ReadDirFails e) then Some SkipDir else None,
        foldl addName names (filter (wanted sfx) (reach join path (Node info rd))))"
  "walkFn = visit sfx \<Longrightarrow>
     walkNames join path ns walkFn names =
       (None, foldl addName names (filter (wanted sfx) (reachNames join path ns)))"
proof (induction join path info rd walkFn names and join path ns walkFn names
       rule: walk_walkNames.induct)
  case (1 join path info rd walkFn st)
  show ?case
  proof (cases "IsDir info")
    case False
    then show ?thesis using 1(2) by (simp add: visit_entry)
  next
    case True
    show ?thesis
    proof (cases rd)
      case (ReadDirFails e)
      then show ?thesis using True 1(2) by (simp add: visit_error)
    next
      case (Names names)
      have v: "walkFn path (Some info) None st = (None, st)"
        using 1(2) True by (simp add: visit_entry IsDir_not_wanted)
      from 1 Names v True
      have "walkNames join path names walkFn st =
              (None, foldl addName st (filter (wanted sfx) (reachNames join path names)))"
        by simp
      then show ?thesis using True Names v by (simp add: IsDir_not_wanted)
    qed
  qed
next
  case (2 join path walkFn st)
  then show ?case by simp
next
  case (3 join path name e rest walkFn st)
  have v: "walkFn (join path name) None (Some (OSError e)) st = (Some SkipDir, st)"
    using 3(3) by (simp add: visit_error)
  from 3 v show ?case by simp
next
  case (4 join path name fileInfo rd rest walkFn st)
  let ?st1 = "foldl addName st (filter (wanted sfx) (reach join (join path name) (Node fileInfo rd)))"
  have w: "walk join (join path name) fileInfo rd walkFn st =
       (if IsDir fileInfo \<and> (\<exists>e. rd = ReadDirFails e) then Some SkipDir else None, ?st1)"
    using 4 by blast
  show ?case
  proof (cases "IsDir fileInfo \<and> (\<exists>e. rd = ReadDirFails e)")
    case True
    with w have w': "walk join (join path name) fileInfo rd walkFn st = (Some SkipDir, ?st1)" by simp
    from 4 w' True
    have "walkNames join path rest walkFn ?st1 =
            (None, foldl addName ?st1 (filter (wanted sfx) (reachNames join path rest)))"
      by simp
    then show ?thesis using w' True by (simp del: walk.simps reach.simps)
  next
    case False
    with w have w': "walk join (join path name) fileInfo rd walkFn st = (None, ?st1)" by auto
    from 4 w'
    have "walkNames join path rest walkFn ?st1 =
            (None, foldl addName ?st1 (filter (wanted sfx) (reachNames join path rest)))"
      by simp
    then show ?thesis using w' by (simp del: walk.simps reach.simps)
  qed
qed

lemma Walk_visit:
  "Walk join root tree (visit sfx) names =
     (None, foldl addName names (filter (wanted sfx) (reach join root tree)))"
proof (cases tree)
  case (LstatFails e)
  then show ?thesis by (simp add: Walk_def visit_error)
next
  case (Node info rd)
  then show ?thesis
    unfolding Walk_def by (simp add: walk_visit_aux(1)[OF refl] del: walk.simps reach.simps)
qed

lemma scanSizes_reach:
  "scanSizes join root sfx tree =
     (foldl addName [] (filter (wanted sfx) (reach join root tree)), None)"
  by (simp add: scanSizes_def Walk_visit)

section \<open>Size buckets\<close>

lemma map_of_addName:
  "map_of (addName names e) s =
     (if s = Size (snd e) then Some (slot names s @ [fst e]) else map_of names s)"
  by (simp add: addName_def update_conv')

lemma distinct_foldl_addName:
  "distinct (map fst names) \<Longrightarrow> distinct (map fst (foldl addName names xs))"
  by (induction xs arbitrary: names) (simp_all add: addName_def distinct_update)

lemma slot_foldl_addName:
  "slot (foldl addName names xs) s = slot names s @ map fst (filter (\<lambda>e. Size (snd e) = s) xs)"
  by (induction xs rule: rev_induct) (auto simp: slot_def map_of_addName)

lemma map_of_foldl_addName:
  "map_of (foldl addName [] xs) s = Some ps \<Longrightarrow>
     ps = map fst (filter (\<lambda>e. Size (snd e) = s) xs)"
  using slot_foldl_addName[of "[]" xs s] by (simp add: slot_def)

lemma scanSizes_distinct: "distinct (map fst (fst (scanSizes join root sfx tree)))"
  by (simp add: scanSizes_reach distinct_foldl_addName)

lemma scanSizes_bucket:
  assumes "(s, ps) \<in> set (fst (scanSizes join root sfx tree))" and "p \<in> set ps"
  shows "\<exists>i. (p, i) \<in> set (reach join root tree) \<and> wanted sfx (p, i) \<and> Size i = s"
proof -
  let ?xs = "filter (wanted sfx) (reach join root tree)"
  from assms(1) have "map_of (foldl addName [] ?xs) s = Some ps"
    using scanSizes_distinct[of join root sfx tree] by (simp add: scanSizes_reach)
  from map_of_foldl_addName[OF this] assms(2)
  have "p \<in> fst ` set (filter (\<lambda>e. Size (snd e) = s) ?xs)" by simp
  then show ?thesis by auto
qed

lemma scanSizes_includes:
  assumes "(p, i) \<in> set (reach join root tree)" and "wanted sfx (p, i)"
  shows "p \<in> set (slot (fst (scanSizes join root sfx tree)) (Size i))"
proof -
  from assms have "(p, i) \<in> set (filter (\<lambda>e. Size (snd e) = Size i)
                                (filter (wanted sfx) (reach join root tree)))"
    by simp
  then have "p \<in> fst ` set (filter (\<lambda>e. Size (snd e) = Size i)
                                (filter (wanted sfx) (reach join root tree)))"
    by force
  moreover have "slot [] (Size i) = []" by (simp add: slot_def)
  ultimately show ?thesis by (simp add: scanSizes_reach slot_foldl_addName)
qed

lemma Split_not_Nil: "Split s sep \<noteq> []"
  by (induction s) (auto split: list.splits)

lemma wanted_empty_suffix:
  "wanted [''''] (p, i) = (Mode i AND ModeType = 0 \<and> HasSuffix (ToLower p) ''.'')"
  by (simp add: wanted_def)

lemma scanSizes_missing_root: "scanSizes join root sfx (LstatFails e) = ([], None)"
  by (simp add: scanSizes_reach)

lemma ModeType_bits:
  "m AND ModeType = 0 \<Longrightarrow>
     m AND ModeDir = 0 \<and> m AND ModeSymlink = 0 \<and> m AND ModeNamedPipe = 0
     \<and> m AND ModeSocket = 0 \<and> m AND ModeDevice = 0"
  by (simp add: ModeType_def bit.conj_disj_distrib or_eq_0_iff)

section \<open>The hash scan\<close>

lemma hashLoop_step:
  "hashLoop sha w (p # ps) files =
     hashLoop sha w ps (case digestOf sha w p of None \<Rightarrow> files | Some d \<Rightarrow> AList.update d p files)"
  by (simp add: digestOf_def split: sum.splits)

lemma map_of_hashLoop:
  "map_of (hashLoop sha w ps files) d =
     (if filter (\<lambda>p. digestOf sha w p = Some d) ps = [] then map_of files d
      else Some (last (filter (\<lambda>p. digestOf sha w p = Some d) ps)))"
proof (induction ps arbitrary: files)
  case Nil
  then show ?case by simp
next
  case (Cons p ps)
  show ?case
    unfolding hashLoop_step Cons.IH
    by (cases "digestOf sha w p") (auto simp: update_conv')
qed

lemma distinct_hashLoop:
  "distinct (map fst files) \<Longrightarrow> distinct (map fst (hashLoop sha w ps files))"
  by (induction ps arbitrary: files) (auto simp: hashLoop_step distinct_update simp del: hashLoop.simps(2) split: option.splits)

lemma set_update_subset: "set (AList.update k v al) \<subseteq> insert (k, v) (set al)"
  by (induction al) auto

lemma hashLoop_entries:
  "(k, p) \<in> set (hashLoop sha w ps files) \<Longrightarrow>
     (k, p) \<in> set files \<or> (p \<in> set ps \<and> digestOf sha w p = Some k)"
proof (induction ps arbitrary: files)
  case Nil
  then show ?case by simp
next
  case (Cons q ps)
  from Cons.prems Cons.IH[of "case digestOf sha w q of None \<Rightarrow> files | Some d \<Rightarrow> AList.update d q files"]
  show ?case
    unfolding hashLoop_step
    using set_update_subset[of _ q files]
    by (auto split: option.splits)
qed

lemma hashLoop_filter:
  "hashLoop sha w (filter (\<lambda>p. digestOf sha w p \<noteq> None) ps) files = hashLoop sha w ps files"
  by (induction ps arbitrary: files) (auto simp: hashLoop_step simp del: hashLoop.simps(2))

text \<open>
  Claim C5. For every ordered sequence of input paths, if two paths produce the same
  digest, the later one in the sequence is the one the output map retains, and the map
  has one entry per digest: when \<open>q\<close> comes before \<open>p\<close>, both have the digest \<open>d\<close> and
  no path after \<open>p\<close> has it, the map sends \<open>d\<close> to \<open>p\<close>, its keys are distinct, and
  \<open>q\<close> (if it is another path) is no value of the map.
\<close>

theorem scanHashes_later_path_wins:
  assumes "paths = before @ q # middle @ p # after"
    and "digestOf sha w q = Some d" and "digestOf sha w p = Some d"
    and "\<forall>r \<in> set after. digestOf sha w r \<noteq> Some d"
  shows "map_of (fst (scanHashes sha w paths)) d = Some p
         \<and> distinct (map fst (fst (scanHashes sha w paths)))
         \<and> (q \<noteq> p \<longrightarrow> q \<notin> snd ` set (fst (scanHashes sha w paths)))"
proof -
  let ?m = "hashLoop sha w paths []"
  have f: "filter (\<lambda>p. digestOf sha w p = Some d) after = []"
    using assms(4) by (simp add: filter_empty_conv)
  have m: "map_of ?m d = Some p"
    unfolding map_of_hashLoop using assms(1,2,3) f by simp
  have dist: "distinct (map fst ?m)"
    by (rule distinct_hashLoop) simp
  have "q \<notin> snd ` set ?m" if "q \<noteq> p"
  proof
    assume "q \<in> snd ` set ?m"
    then obtain k where k: "(k, q) \<in> set ?m" by auto
    from hashLoop_entries[OF k] assms(2) have "k = d" by simp
    with k dist have "map_of ?m d = Some q" by simp
    with m that show False by simp
  qed
  with m dist show ?thesis by (simp add: scanHashes_def)
qed

theorem scanHashes_later_path_wins_witness:
  "map_of (fst (scanHashes byteSum scenario
                  [''keep/A.txt'', ''clean/C.txt'', ''clean/B.txt'', ''nope'']))
      (byteSum (replicate 10 1)) = Some ''clean/B.txt''
   \<and> distinct (map fst (fst (scanHashes byteSum scenario
                  [''keep/A.txt'', ''clean/C.txt'', ''clean/B.txt'', ''nope''])))
   \<and> ''keep/A.txt'' \<notin> snd ` set (fst (scanHashes byteSum scenario
                  [''keep/A.txt'', ''clean/C.txt'', ''clean/B.txt'', ''nope'']))"
proof -
  have q: "digestOf byteSum scenario ''keep/A.txt'' = Some (byteSum (replicate 10 1))"
    by (simp add: digestOf_def os_Open_def io_Copy_def scenario_def)
  have p: "digestOf byteSum scenario ''clean/B.txt'' = Some (byteSum (replicate 10 1))"
    by (simp add: digestOf_def os_Open_def io_Copy_def scenario_def)
  have a: "\<forall>r \<in> set [''nope'']. digestOf byteSum scenario r \<noteq> Some (byteSum (replicate 10 1))"
    by (simp add: digestOf_def os_Open_def io_Copy_def scenario_def)
  have l: "[''keep/A.txt'', ''clean/C.txt'', ''clean/B.txt'', ''nope'']
             = [] @ ''keep/A.txt'' # [''clean/C.txt''] @ ''clean/B.txt'' # [''nope'']"
    by simp
  from scanHashes_later_path_wins[OF l q p a] show ?thesis by simp
qed

text \<open>
  Claim C6. For every input path list, \<open>scanHashes\<close> returns a nil error and its
  best-effort map: under each digest the map holds the last path of the list whose file
  could be read and has that digest, and it has no other key, so every readable path
  of the batch has its digest as a key wherever the unreadable paths stand in the list;
  the map is the one the readable paths alone give; and a path whose file cannot be
  opened or read is no value of the map.
\<close>

theorem scanHashes_best_effort:
  "snd (scanHashes sha w paths) = None
   \<and> (\<forall>d. map_of (fst (scanHashes sha w paths)) d =
          (if filter (\<lambda>p. digestOf sha w p = Some d) paths = [] then None
           else Some (last (filter (\<lambda>p. digestOf sha w p = Some d) paths))))
   \<and> (\<forall>p d. p \<in> set paths \<and> digestOf sha w p = Some d
          \<longrightarrow> d \<in> fst ` set (fst (scanHashes sha w paths)))
   \<and> fst (scanHashes sha w paths)
       = fst (scanHashes sha w (filter (\<lambda>p. digestOf sha w p \<noteq> None) paths))
   \<and> (\<forall>p. digestOf sha w p = None \<longrightarrow> p \<notin> snd ` set (fst (scanHashes sha w paths)))"
proof -
  let ?m = "hashLoop sha w paths []"
  have m: "map_of ?m d =
          (if filter (\<lambda>p. digestOf sha w p = Some d) paths = [] then None
           else Some (last (filter (\<lambda>p. digestOf sha w p = Some d) paths)))" for d
    by (simp add: map_of_hashLoop)
  have k: "d \<in> fst ` set ?m" if "p \<in> set paths \<and> digestOf sha w p = Some d" for p d
  proof -
    from that have "filter (\<lambda>p. digestOf sha w p = Some d) paths \<noteq> []"
      by (auto simp: filter_empty_conv)
    with m[of d] have "map_of ?m d \<noteq> None" by simp
    then show ?thesis by (simp add: map_of_eq_None_iff)
  qed
  have v: "p \<notin> snd ` set ?m" if "digestOf sha w p = None" for p
  proof
    assume "p \<in> snd ` set ?m"
    then obtain k where "(k, p) \<in> set ?m" by auto
    from hashLoop_entries[OF this] that show False by simp
  qed
  have f: "?m = hashLoop sha w (filter (\<lambda>p. digestOf sha w p \<noteq> None) paths) []"
    by (rule hashLoop_filter[symmetric])
  have 1: "snd (scanHashes sha w paths) = None" by (simp add: scanHashes_def)
  have 2: "fst (scanHashes sha w paths) = ?m" by (simp add: scanHashes_def)
  have 4: "fst (scanHashes sha w paths)
       = fst (scanHashes sha w (filter (\<lambda>p. digestOf sha w p \<noteq> None) paths))"
    using f by (simp add: scanHashes_def del: not_None_eq)
  show ?thesis
    unfolding 2 using 1 m k v 4[unfolded 2] by blast
qed

theorem scanHashes_best_effort_witness:
  "snd (scanHashes byteSum scenario [''keep/A.txt'', ''nope'', ''clean/C.txt'']) = None
   \<and> digestOf byteSum scenario ''nope'' = None
   \<and> ''nope'' \<notin> snd ` set (fst (scanHashes byteSum scenario
                                    [''keep/A.txt'', ''nope'', ''clean/C.txt'']))
   \<and> map_of (fst (scanHashes byteSum scenario [''keep/A.txt'', ''nope'', ''clean/C.txt'']))
        (byteSum (replicate 10 1)) = Some ''keep/A.txt''
   \<and> map_of (fst (scanHashes byteSum scenario [''keep/A.txt'', ''nope'', ''clean/C.txt'']))
        (byteSum (replicate 10 2)) = Some ''clean/C.txt''
   \<and> byteSum (replicate 10 2) \<in> fst ` set (fst (scanHashes byteSum scenario
                                    [''keep/A.txt'', ''nope'', ''clean/C.txt'']))"
proof -
  let ?ps = "[''keep/A.txt'', ''nope'', ''clean/C.txt'']"
  have n: "digestOf byteSum scenario ''nope'' = None"
    by (simp add: digestOf_def os_Open_def io_Copy_def scenario_def)
  have a: "digestOf byteSum scenario ''keep/A.txt'' = Some (byteSum (replicate 10 1))"
    by (simp add: digestOf_def os_Open_def io_Copy_def scenario_def)
  have c: "digestOf byteSum scenario ''clean/C.txt'' = Some (byteSum (replicate 10 2))"
    by (simp add: digestOf_def os_Open_def io_Copy_def scenario_def)
  have ne: "byteSum (replicate 10 1) \<noteq> byteSum (replicate 10 2)"
    by (simp add: byteSum_def)
  note t = scanHashes_best_effort[of byteSum scenario ?ps]
  from t[THEN conjunct1] have 1: "snd (scanHashes byteSum scenario ?ps) = None" .
  from t[THEN conjunct2, THEN conjunct1, THEN spec, of "byteSum (replicate 10 1)"] n a c ne
  have 2: "map_of (fst (scanHashes byteSum scenario ?ps)) (byteSum (replicate 10 1))
             = Some ''keep/A.txt''"
    by simp
  from t[THEN conjunct2, THEN conjunct1, THEN spec, of "byteSum (replicate 10 2)"] n a c ne
  have 3: "map_of (fst (scanHashes byteSum scenario ?ps)) (byteSum (replicate 10 2))
             = Some ''clean/C.txt''"
    by simp
  have "''clean/C.txt'' \<in> set ?ps \<and> digestOf byteSum scenario ''clean/C.txt''
          = Some (byteSum (replicate 10 2))"
    using c by simp
  from t[THEN conjunct2, THEN conjunct2, THEN conjunct1, THEN spec, THEN spec, THEN mp, OF this]
  have 4: "byteSum (replicate 10 2) \<in> fst ` set (fst (scanHashes byteSum scenario ?ps))" .
  from t[THEN conjunct2, THEN conjunct2, THEN conjunct2, THEN conjunct2, THEN spec, THEN mp, OF n]
  have 5: "''nope'' \<notin> snd ` set (fst (scanHashes byteSum scenario ?ps))" .
  from 1 n 5 2 3 4 show ?thesis by blast
qed

section \<open>The matching loops\<close>

lemma dupsLoop_exit:
  "dupsLoop isdry sz cleaners ks t = (Some ex, t') \<Longrightarrow> \<exists>p. ex = FatalRemove p"
  by (induction ks arbitrary: t) (auto split: option.splits if_splits sum.splits)

lemma sizesLoop_exit:
  "sizesLoop isdry rh sha cleanerSizes es t = (Some ex, t') \<Longrightarrow> \<exists>p. ex = FatalRemove p"
  by (induction es arbitrary: t)
     (auto simp: scanHashes_def split: option.splits prod.splits dest: dupsLoop_exit)

lemma matches_set:
  "set (matches cleaners ks) = {(kp, cp). \<exists>key. (key, kp) \<in> set ks \<and> map_of cleaners key = Some cp}"
  by (induction cleaners ks rule: matches.induct) (auto split: option.splits)




lemma digestOf_Missing: "fileAt w p = Missing \<Longrightarrow> digestOf sha w p = None"
  by (simp add: digestOf_def os_Open_def)


lemma hashLoop_paths: "snd ` set (hashLoop sha w ps []) \<subseteq> set ps"
  using hashLoop_entries[of _ _ sha w ps "[]"] by auto

lemma matches_snd: "snd ` set (matches cleaners ks) \<subseteq> snd ` set cleaners"
proof
  fix p assume "p \<in> snd ` set (matches cleaners ks)"
  then obtain kp key where "map_of cleaners key = Some p"
    by (auto simp: matches_set)
  then have "(key, p) \<in> set cleaners" by (rule map_of_SomeD)
  then show "p \<in> snd ` set cleaners" by force
qed



lemma sizesLoop_Cons:
  "sizesLoop isdry rh sha C ((s, kn) # rest) t =
     (case map_of C s of
        None \<Rightarrow> sizesLoop isdry rh sha C rest t
      | Some cn \<Rightarrow>
          (case dupsLoop isdry s (hashLoop sha (fs t) cn []) (rh (hashLoop sha (fs t) kn [])) t of
             (Some ex, t') \<Rightarrow> (Some ex, t')
           | (None, t') \<Rightarrow> sizesLoop isdry rh sha C rest t'))"
  by (simp add: scanHashes_def split: option.splits)






lemma dupsLoop_deleted:
  "dupsLoop isdry sz cleaners ks t = (ex, t') \<Longrightarrow>
     set (deleted t') \<subseteq> set (deleted t) \<union> set (matches cleaners ks)"
proof (induction cleaners ks arbitrary: t rule: matches.induct)
  case (1 cleaners)
  then show ?case by simp
next
  case (2 cleaners key keeppath rest)
  show ?case
  proof (cases "map_of cleaners key")
    case None
    with 2(3) have "dupsLoop isdry sz cleaners rest t = (ex, t')" by simp
    from 2(1)[OF None this] None show ?thesis by simp
  next
    case (Some cleanpath)
    from 2(2)[OF Some] 2(3) Some show ?thesis
      by (fastforce split: if_splits sum.splits)
  qed
qed

lemma sizesLoop_deleted:
  assumes "sizesLoop isdry rh sha C es t = (ex, t')" and "(kp, cp) \<in> set (deleted t')"
  shows "(kp, cp) \<in> set (deleted t) \<or> (\<exists>s cn. map_of C s = Some cn \<and> cp \<in> set cn)"
  using assms
proof (induction es arbitrary: t)
  case Nil
  then show ?case by simp
next
  case (Cons e es)
  obtain s kn where e: "e = (s, kn)" by (cases e)
  show ?case
  proof (cases "map_of C s")
    case None
    then have "sizesLoop isdry rh sha C es t = (ex, t')"
      using Cons.prems(1) e by (simp add: sizesLoop_Cons del: sizesLoop.simps)
    from Cons.IH[OF this Cons.prems(2)] show ?thesis .
  next
    case (Some cn)
    let ?keepers = "hashLoop sha (fs t) kn []"
    let ?cleaners = "hashLoop sha (fs t) cn []"
    obtain ex1 t1 where inner: "dupsLoop isdry s ?cleaners (rh ?keepers) t = (ex1, t1)"
      by (cases "dupsLoop isdry s ?cleaners (rh ?keepers) t")
    have d1: "(kp, cp) \<in> set (deleted t) \<or> cp \<in> set cn" if "(kp, cp) \<in> set (deleted t1)"
    proof -
      from dupsLoop_deleted[OF inner] that
      have "(kp, cp) \<in> set (deleted t) \<or> (kp, cp) \<in> set (matches ?cleaners (rh ?keepers))"
        by blast
      moreover have "cp \<in> set cn" if "(kp, cp) \<in> set (matches ?cleaners (rh ?keepers))"
      proof -
        from that have "cp \<in> snd ` set (matches ?cleaners (rh ?keepers))" by force
        with matches_snd have "cp \<in> snd ` set ?cleaners" by blast
        with hashLoop_paths show ?thesis by blast
      qed
      ultimately show ?thesis by blast
    qed
    show ?thesis
    proof (cases ex1)
      case None
      with inner Cons.prems(1) Some e have "sizesLoop isdry rh sha C es t1 = (ex, t')"
        by (simp add: sizesLoop_Cons del: sizesLoop.simps)
      from Cons.IH[OF this Cons.prems(2)] d1 Some show ?thesis by blast
    next
      case (Some x)
      with inner Cons.prems(1) \<open>map_of C s = Some cn\<close> e have "t' = t1"
        by (simp add: sizesLoop_Cons del: sizesLoop.simps)
      with d1 Cons.prems(2) \<open>map_of C s = Some cn\<close> show ?thesis by blast
    qed
  qed
qed

lemma main_deleted:
  assumes "(kp, cp) \<in> set (deleted (snd (main rs rh join sha flags w)))"
  shows "\<exists>s cn. (s, cn) \<in> set (cleanerSizesOf join flags w) \<and> cp \<in> set cn"
proof -
  let ?C = "cleanerSizesOf join flags w"
  let ?t0 = "\<lparr>filecount = 0, bytecount = 0, found = [], deleted = [], fs = w\<rparr>"
  from assms have ne: "keep flags \<noteq> [] \<and> clean flags \<noteq> []"
    by (auto simp: main_def split: if_splits)
  then have m: "main rs rh join sha flags w
            = sizesLoop (dry flags) rh sha ?C (rs (keeperSizesOf join flags w)) ?t0"
    by (simp add: main_def scanSizes_reach keeperSizesOf_def cleanerSizesOf_def)
  obtain ex t' where r: "sizesLoop (dry flags) rh sha ?C (rs (keeperSizesOf join flags w)) ?t0 = (ex, t')"
    by (cases "sizesLoop (dry flags) rh sha ?C (rs (keeperSizesOf join flags w)) ?t0")
  from assms m r have "(kp, cp) \<in> set (deleted t')" by simp
  from sizesLoop_deleted[OF r this] obtain s cn where "map_of ?C s = Some cn" "cp \<in> set cn"
    by auto
  then show ?thesis using map_of_SomeD by fast
qed

lemma main_usage:
  "keep flags = [] \<or> clean flags = [] \<Longrightarrow>
     main rs rh join sha flags w
       = (Some ExitUsage, \<lparr>filecount = 0, bytecount = 0, found = [], deleted = [], fs = w\<rparr>)"
  by (simp add: main_def)


lemma sizes_dry [simp]:
  "keeperSizesOf join (flags\<lparr>dry := b\<rparr>) w = keeperSizesOf join flags w"
  "cleanerSizesOf join (flags\<lparr>dry := b\<rparr>) w = cleanerSizesOf join flags w"
  by (simp_all add: keeperSizesOf_def cleanerSizesOf_def)

text \<open>
  The definitions a concrete scan, and a concrete run, unfold to.
\<close>

lemmas eval_defs = scenario_def directory_def regular_def
        IsDir_def ModeDir_def ModeType_def ModeSymlink_def ModeDevice_def ModeNamedPipe_def
        ModeSocket_def ModeCharDevice_def ModeIrregular_def Join_def wanted_def HasSuffix_def
        ToLower_def toLowerChar_def addName_def slot_def

lemmas run_defs = main_def scanSizes_reach eval_defs scanHashes_def os_Open_def io_Copy_def
  os_Remove_def byteSum_def exitStatus_def keeperSizesOf_def cleanerSizesOf_def

section \<open>Claims on the size scan\<close>

text \<open>
  What the guard \<open>len(suffixes) > 0\<close> meets in \<open>main\<close>: the list \<open>strings.Split\<close>
  returns is never empty, and for the empty flag it is the one-element list of the empty
  string, whose only suffix test is the path ending in a dot. With a list that is empty
  the scan takes every regular file it reaches (\<open>scanSizes_includes\<close> with
  \<open>wanted []\<close>).
\<close>

text \<open>
  Claim C1 (the code departs from it). With the flag \<open>-extensions\<close> absent or empty
  every regular file under the root is to be in the size map. Here the flag is empty and
  the keep tree of the scenario holds the regular file \<open>keep/A.txt\<close>: the suffix list
  \<open>main\<close> passes is \<open>[""]\<close>, and the size map of the keep tree is empty.
\<close>

theorem empty_extensions_flag_drops_regular_files:
  "Split (ToLower (extensions \<lparr>keep = ''keep'', clean = ''clean'', dry = False, extensions = ''''\<rparr>))
       CHR '','' = ['''']
   \<and> (''keep/A.txt'', \<lparr>Mode = 420, Size = 10\<rparr>) \<in> set (reach Join ''keep'' (lstatTree scenario ''keep''))
   \<and> Mode \<lparr>Mode = 420, Size = 10\<rparr> AND ModeType = 0
   \<and> keeperSizesOf Join \<lparr>keep = ''keep'', clean = ''clean'', dry = False, extensions = ''''\<rparr>
        scenario = []"
  by (simp add: keeperSizesOf_def scanSizes_reach scenario_def directory_def regular_def
        IsDir_def ModeDir_def ModeType_def ModeSymlink_def ModeDevice_def ModeNamedPipe_def
        ModeSocket_def ModeCharDevice_def ModeIrregular_def Join_def wanted_def HasSuffix_def
        ToLower_def toLowerChar_def)

text \<open>
  Claim C2, as the specification states it, fails for a root that is a regular file:
  \<open>keep/A.txt\<close> given as the keep root is scanned as a tree of one file, \<open>scanSizes\<close>
  returns no error, and the run ends with status 0.
\<close>

theorem file_as_root_counterexample:
  "lstatTree fileAsRoot ''keep/A.txt'' = Node \<lparr>Mode = 420, Size = 10\<rparr> (Names [])
   \<and> \<not> IsDir \<lparr>Mode = 420, Size = 10\<rparr>
   \<and> scanSizes Join ''keep/A.txt'' (Split (ToLower ''txt'') CHR '','')
        (lstatTree fileAsRoot ''keep/A.txt'') = ([(10, [''keep/A.txt''])], None)
   \<and> main id id Join byteSum
        \<lparr>keep = ''keep/A.txt'', clean = ''clean'', dry = True, extensions = ''txt''\<rparr> fileAsRoot
      = (None, \<lparr>filecount = 1, bytecount = 10, found = [(''keep/A.txt'', ''clean/B.txt'')],
                 deleted = [], fs = fileAsRoot\<rparr>)
   \<and> exitStatus (fst (main id id Join byteSum
        \<lparr>keep = ''keep/A.txt'', clean = ''clean'', dry = True, extensions = ''txt''\<rparr> fileAsRoot)) = 0"
  by (simp add: fileAsRoot_def main_def scanSizes_reach eval_defs scanHashes_def os_Open_def
        io_Copy_def byteSum_def exitStatus_def)

text \<open>
  Claim C2 (amended). For every root that exists and is not a directory the scan does
  not abort and surfaces no error: the root is the only entry visited, the size map
  holds it alone when it is a regular file that passes the extension filter and is
  empty otherwise, and \<open>main\<close> does not exit at that scan.
\<close>

theorem scanSizes_root_not_directory:
  assumes "lstatTree w root = Node info rd" and "\<not> IsDir info"
  shows "scanSizes join root sfx (lstatTree w root)
           = (if wanted sfx (root, info) then [(Size info, [root])] else [], None)
         \<and> (root = keep flags \<longrightarrow> fst (main rs rh join sha flags w) \<noteq> Some ExitKeepSizes)
         \<and> (root = clean flags \<longrightarrow> fst (main rs rh join sha flags w) \<noteq> Some ExitCleanSizes)"
proof -
  have "scanSizes join root sfx (lstatTree w root)
           = (if wanted sfx (root, info) then [(Size info, [root])] else [], None)"
    using assms by (simp add: scanSizes_reach addName_def slot_def)
  moreover have "ex \<noteq> ExitKeepSizes \<and> ex \<noteq> ExitCleanSizes"
    if "main rs rh join sha flags w = (Some ex, t)" for ex t
    using that
    by (auto simp: main_def scanSizes_reach split: if_splits dest: sizesLoop_exit)
  ultimately show ?thesis
    by (cases "main rs rh join sha flags w") auto
qed

theorem scanSizes_root_not_directory_witness:
  "scanSizes Join ''keep/A.txt'' [''txt''] (lstatTree fileAsRoot ''keep/A.txt'')
     = ([(10, [''keep/A.txt''])], None)
   \<and> fst (main id id Join byteSum
        \<lparr>keep = ''keep/A.txt'', clean = ''clean'', dry = True, extensions = ''txt''\<rparr> fileAsRoot)
       \<noteq> Some ExitKeepSizes"
proof -
  have t: "lstatTree fileAsRoot ''keep/A.txt'' = Node \<lparr>Mode = 420, Size = 10\<rparr> (Names [])"
    by (simp add: fileAsRoot_def regular_def)
  have d: "\<not> IsDir \<lparr>Mode = 420, Size = 10\<rparr>"
    by (simp add: IsDir_def ModeDir_def)
  have w: "wanted [''txt''] (''keep/A.txt'', \<lparr>Mode = 420, Size = 10\<rparr>)"
    by (simp add: eval_defs)
  from scanSizes_root_not_directory[OF t d, of Join "[''txt'']"
         "\<lparr>keep = ''keep/A.txt'', clean = ''clean'', dry = True, extensions = ''txt''\<rparr>"
         id id byteSum] w
  show ?thesis by simp
qed

text \<open>
  Claim C7. A traversal error on a path never aborts the scan: \<open>scanSizes\<close> returns a
  nil error, and every wanted entry the walk reaches without crossing a failing entry is
  in the bucket of its size. An entry whose \<open>Lstat\<close> fails and a directory that cannot
  be read are skipped with what lies below them, and the walk goes on with the entries
  after them.
\<close>

theorem scanSizes_skips_failing_subtrees:
  "snd (scanSizes join root sfx tree) = None
   \<and> (\<forall>p i. (p, i) \<in> set (reach join root tree) \<and> wanted sfx (p, i)
          \<longrightarrow> p \<in> set (slot (fst (scanSizes join root sfx tree)) (Size i)))
   \<and> reachNames join dir ((name, LstatFails e) # rest) = reachNames join dir rest
   \<and> (IsDir info \<longrightarrow> reachNames join dir ((name, Node info (ReadDirFails e)) # rest)
                       = reachNames join dir rest)"
  using scanSizes_includes[of _ _ join root tree sfx]
  by (simp add: scanSizes_reach)

theorem scanSizes_skips_failing_subtrees_witness:
  "snd (scanSizes Join ''r'' [''txt''] brokenTree) = None
   \<and> (''r/sub/z.TXT'', \<lparr>Mode = 420, Size = 2\<rparr>) \<in> set (reach Join ''r'' brokenTree)
   \<and> wanted [''txt''] (''r/sub/z.TXT'', \<lparr>Mode = 420, Size = 2\<rparr>)
   \<and> ''r/sub/z.TXT'' \<in> set (slot (fst (scanSizes Join ''r'' [''txt''] brokenTree)) 2)"
proof -
  have r: "(''r/sub/z.TXT'', \<lparr>Mode = 420, Size = 2\<rparr>) \<in> set (reach Join ''r'' brokenTree)"
    by (simp add: brokenTree_def eval_defs)
  have w: "wanted [''txt''] (''r/sub/z.TXT'', \<lparr>Mode = 420, Size = 2\<rparr>)"
    by code_simp
  note t = scanSizes_skips_failing_subtrees[of Join "''r''" "[''txt'']" brokenTree]
  from t[THEN conjunct1] have 1: "snd (scanSizes Join ''r'' [''txt''] brokenTree) = None" .
  from t[THEN conjunct2, THEN conjunct1, rule_format, of "''r/sub/z.TXT''" "\<lparr>Mode = 420, Size = 2\<rparr>"] r w
  have "''r/sub/z.TXT'' \<in> set (slot (fst (scanSizes Join ''r'' [''txt''] brokenTree))
                            (Size \<lparr>Mode = 420, Size = 2\<rparr>))"
    by blast
  with 1 r w show ?thesis by simp
qed

text \<open>
  Claim C9. Every path in a size bucket is the path of an entry the walk reached whose
  mode has no type bit set, so it is no directory, symbolic link, socket, named pipe or
  device; the closure leaves the map as it is for an entry with one of these bits,
  whatever the suffix list; and every path \<open>main\<close> removes is such a regular file of
  the clean tree.
\<close>

theorem only_regular_files_in_buckets:
  "(\<forall>s ps p. (s, ps) \<in> set (fst (scanSizes join root sfx tree)) \<and> p \<in> set ps \<longrightarrow>
       (\<exists>i. (p, i) \<in> set (reach join root tree) \<and> Size i = s \<and> Mode i AND ModeType = 0
            \<and> Mode i AND ModeDir = 0 \<and> Mode i AND ModeSymlink = 0 \<and> Mode i AND ModeSocket = 0
            \<and> Mode i AND ModeNamedPipe = 0 \<and> Mode i AND ModeDevice = 0))
   \<and> (\<forall>i path inerr names.
         Mode i AND ModeDir \<noteq> 0 \<or> Mode i AND ModeSymlink \<noteq> 0 \<or> Mode i AND ModeSocket \<noteq> 0
         \<or> Mode i AND ModeNamedPipe \<noteq> 0 \<or> Mode i AND ModeDevice \<noteq> 0
         \<longrightarrow> snd (visit sfx path (Some i) inerr names) = names)
   \<and> (\<forall>kp cp. (kp, cp) \<in> set (deleted (snd (main rs rh join sha flags w))) \<longrightarrow>
         (\<exists>i. (cp, i) \<in> set (reach join (clean flags) (lstatTree w (clean flags)))
               \<and> Mode i AND ModeType = 0))"
proof (intro conjI allI impI)
  fix s ps p
  assume "(s, ps) \<in> set (fst (scanSizes join root sfx tree)) \<and> p \<in> set ps"
  then obtain i where i: "(p, i) \<in> set (reach join root tree)" "wanted sfx (p, i)" "Size i = s"
    using scanSizes_bucket by blast
  from i(2) have "Mode i AND ModeType = 0" by (simp add: wanted_def)
  with ModeType_bits[OF this] i
  show "\<exists>i. (p, i) \<in> set (reach join root tree) \<and> Size i = s \<and> Mode i AND ModeType = 0
            \<and> Mode i AND ModeDir = 0 \<and> Mode i AND ModeSymlink = 0 \<and> Mode i AND ModeSocket = 0
            \<and> Mode i AND ModeNamedPipe = 0 \<and> Mode i AND ModeDevice = 0"
    by blast
next
  fix i :: FileInfo and path inerr and names :: sizemap
  assume "Mode i AND ModeDir \<noteq> 0 \<or> Mode i AND ModeSymlink \<noteq> 0 \<or> Mode i AND ModeSocket \<noteq> 0
         \<or> Mode i AND ModeNamedPipe \<noteq> 0 \<or> Mode i AND ModeDevice \<noteq> 0"
  with ModeType_bits[of "Mode i"] have "Mode i AND ModeType \<noteq> 0" by blast
  then show "snd (visit sfx path (Some i) inerr names) = names"
    by (simp add: visit_def split: option.splits)
next
  fix kp cp
  assume "(kp, cp) \<in> set (deleted (snd (main rs rh join sha flags w)))"
  from main_deleted[OF this] obtain s cn where
    "(s, cn) \<in> set (cleanerSizesOf join flags w)" "cp \<in> set cn" by blast
  from scanSizes_bucket[OF this(1)[unfolded cleanerSizesOf_def] this(2)]
  show "\<exists>i. (cp, i) \<in> set (reach join (clean flags) (lstatTree w (clean flags)))
               \<and> Mode i AND ModeType = 0"
    by (auto simp: wanted_def)
qed

theorem only_regular_files_in_buckets_witness:
  "fst (scanSizes Join ''r'' [''txt''] brokenTree) = [(1, [''r/a.txt'']), (2, [''r/sub/z.TXT''])]
   \<and> (\<exists>i. (''r/a.txt'', i) \<in> set (reach Join ''r'' brokenTree) \<and> Size i = 1
            \<and> Mode i AND ModeType = 0)
   \<and> Mode \<lparr>Mode = ModeSymlink OR 511, Size = 5\<rparr> AND ModeSymlink \<noteq> 0
   \<and> snd (visit [''txt''] ''r/link.txt'' (Some \<lparr>Mode = ModeSymlink OR 511, Size = 5\<rparr>) None []) = []"
proof -
  have s: "fst (scanSizes Join ''r'' [''txt''] brokenTree) = [(1, [''r/a.txt'']), (2, [''r/sub/z.TXT''])]"
    by code_simp
  have m: "Mode \<lparr>Mode = ModeSymlink OR 511, Size = 5\<rparr> AND ModeSymlink \<noteq> 0"
    by (simp add: ModeSymlink_def)
  note t = only_regular_files_in_buckets[of Join "''r''" "[''txt'']" brokenTree]
  have in_s: "(1, [''r/a.txt'']) \<in> set (fst (scanSizes Join ''r'' [''txt''] brokenTree))
              \<and> ''r/a.txt'' \<in> set [''r/a.txt'']"
    unfolding s by simp
  from t[THEN conjunct1, rule_format, OF in_s]
  have 1: "\<exists>i. (''r/a.txt'', i) \<in> set (reach Join ''r'' brokenTree) \<and> Size i = 1
            \<and> Mode i AND ModeType = 0"
    by blast
  have "Mode \<lparr>Mode = ModeSymlink OR 511, Size = 5\<rparr> AND ModeDir \<noteq> 0
        \<or> Mode \<lparr>Mode = ModeSymlink OR 511, Size = 5\<rparr> AND ModeSymlink \<noteq> 0
        \<or> Mode \<lparr>Mode = ModeSymlink OR 511, Size = 5\<rparr> AND ModeSocket \<noteq> 0
        \<or> Mode \<lparr>Mode = ModeSymlink OR 511, Size = 5\<rparr> AND ModeNamedPipe \<noteq> 0
        \<or> Mode \<lparr>Mode = ModeSymlink OR 511, Size = 5\<rparr> AND ModeDevice \<noteq> 0"
    using m by blast
  from t[THEN conjunct2, THEN conjunct1, rule_format, OF this]
  have 2: "snd (visit [''txt''] ''r/link.txt'' (Some \<lparr>Mode = ModeSymlink OR 511, Size = 5\<rparr>) None []) = []" .
  from s 1 m 2 show ?thesis by blast
qed

section \<open>Claims on main\<close>

text \<open>
  Claim C3 (the code departs from it). No file of the keep tree is ever to be deleted,
  and the help text of the flag \<open>-keep\<close> (line 20) says the same: "directory to look
  for dups, but delete nothing". Here \<open>-keep\<close> and \<open>-clean\<close> name the same directory
  and the run is live: the regular file \<open>keep/A.txt\<close> is scanned in the keep tree, its
  file is there before the run, the run completes, and it has removed \<open>keep/A.txt\<close> as
  a duplicate of itself.
\<close>

theorem same_directory_deletes_keep_file:
  "(''keep/A.txt'', \<lparr>Mode = 420, Size = 10\<rparr>) \<in> set (reach Join ''keep'' (lstatTree scenario ''keep''))
   \<and> keeperSizesOf Join \<lparr>keep = ''keep'', clean = ''keep'', dry = False, extensions = ''txt''\<rparr>
        scenario = [(10, [''keep/A.txt''])]
   \<and> fileAt scenario ''keep/A.txt'' = Bytes (replicate 10 1)
   \<and> fst (main id id Join byteSum
        \<lparr>keep = ''keep'', clean = ''keep'', dry = False, extensions = ''txt''\<rparr> scenario) = None
   \<and> deleted (snd (main id id Join byteSum
        \<lparr>keep = ''keep'', clean = ''keep'', dry = False, extensions = ''txt''\<rparr> scenario))
       = [(''keep/A.txt'', ''keep/A.txt'')]
   \<and> fileAt (fs (snd (main id id Join byteSum
        \<lparr>keep = ''keep'', clean = ''keep'', dry = False, extensions = ''txt''\<rparr> scenario)))
        ''keep/A.txt'' = Missing"
  by (simp add: run_defs)




text \<open>
  Claim C8 (the code departs from it). In the scenario a run is to remove \<open>B.txt\<close> (or
  report it in a dry run) and to count 1 file and 10 bytes. A run without the flag
  \<open>-extensions\<close> finds nothing: both the live and the dry run end with the counters at 0
  and with no pair reported or removed, although \<open>B.txt\<close> has the bytes of \<open>A.txt\<close>.
\<close>

theorem scenario_without_extensions_finds_nothing:
  "main id id Join byteSum
      \<lparr>keep = ''keep'', clean = ''clean'', dry = False, extensions = ''''\<rparr> scenario
     = (None, \<lparr>filecount = 0, bytecount = 0, found = [], deleted = [], fs = scenario\<rparr>)
   \<and> main id id Join byteSum
      \<lparr>keep = ''keep'', clean = ''clean'', dry = True, extensions = ''''\<rparr> scenario
     = (None, \<lparr>filecount = 0, bytecount = 0, found = [], deleted = [], fs = scenario\<rparr>)
   \<and> fileAt scenario ''clean/B.txt'' = fileAt scenario ''keep/A.txt''"
  by (simp add: run_defs)

text \<open>
  With \<open>-extensions txt\<close> the scenario runs as expected: the dry run reports the pair,
  the live run removes \<open>clean/B.txt\<close> and nothing else, and both count 1 file and 10
  bytes.
\<close>

lemma scenario_with_txt_extension:
  "main id id Join byteSum
      \<lparr>keep = ''keep'', clean = ''clean'', dry = True, extensions = ''txt''\<rparr> scenario
     = (None, \<lparr>filecount = 1, bytecount = 10, found = [(''keep/A.txt'', ''clean/B.txt'')],
               deleted = [], fs = scenario\<rparr>)"
  "fst (main id id Join byteSum
      \<lparr>keep = ''keep'', clean = ''clean'', dry = False, extensions = ''txt''\<rparr> scenario) = None"
  "filecount (snd (main id id Join byteSum
      \<lparr>keep = ''keep'', clean = ''clean'', dry = False, extensions = ''txt''\<rparr> scenario)) = 1"
  "bytecount (snd (main id id Join byteSum
      \<lparr>keep = ''keep'', clean = ''clean'', dry = False, extensions = ''txt''\<rparr> scenario)) = 10"
  "deleted (snd (main id id Join byteSum
      \<lparr>keep = ''keep'', clean = ''clean'', dry = False, extensions = ''txt''\<rparr> scenario))
     = [(''keep/A.txt'', ''clean/B.txt'')]"
  "fileAt (fs (snd (main id id Join byteSum
      \<lparr>keep = ''keep'', clean = ''clean'', dry = False, extensions = ''txt''\<rparr> scenario)))
     = (fileAt scenario)(''clean/B.txt'' := Missing)"
  by (simp_all add: run_defs)

text \<open>
  Claim C10. For every input path list \<open>scanHashes\<close> returns a nil error, so no run of
  \<open>main\<close> ends at one of the two \<open>os.Exit(1)\<close> that follow the calls of \<open>scanHashes\<close>.
\<close>

theorem scanHashes_error_branches_unreachable:
  "snd (scanHashes sha w paths) = None
   \<and> fst (main rangeSizes rangeHashes join sha flags w) \<noteq> Some ExitKeepHashes
   \<and> fst (main rangeSizes rangeHashes join sha flags w) \<noteq> Some ExitCleanHashes"
proof -
  have "ex \<noteq> ExitKeepHashes \<and> ex \<noteq> ExitCleanHashes"
    if "main rangeSizes rangeHashes join sha flags w = (Some ex, t)" for ex t
    using that
    by (auto simp: main_def split: if_splits prod.splits option.splits dest: sizesLoop_exit)
  then show ?thesis
    by (cases "main rangeSizes rangeHashes join sha flags w") (auto simp: scanHashes_def)
qed

end
